theory Spec2Isabelle
  imports Complex_Main "HOL-Library.Log_Nat"
begin

section \<open>Numbers, keys and the shared counter store\<close>

text \<open>
  The rate limiter of the bot template consists of a Lua script that runs inside Redis
  (\<^verbatim>\<open>TOKEN_BUCKET_SCRIPT\<close> in \<^verbatim>\<open>src/services/rateLimitService.ts\<close>), the TypeScript
  class \<^verbatim>\<open>RateLimitService\<close> that calls it, and the grammY middleware of
  \<^verbatim>\<open>src/middleware/rateLimit.ts\<close>.

  Lua and JavaScript numbers are IEEE doubles. A number is modelled by the rational it
  stands for (\<^typ>\<open>rat\<close>). The script is given twice: \<open>TOKEN_BUCKET_SCRIPT\<close> computes on
  exact numbers, and \<open>TOKEN_BUCKET_SCRIPT_double\<close> rounds the result of every arithmetic
  operation to the nearest double, as Lua does. The retry hints of successive denials
  depend on that rounding and are stated on the second one. Telegram identifiers and
  \<^verbatim>\<open>Date.now()\<close> readings are integers.
\<close>

type_synonym number = rat

text \<open>Decimal rendering of an integer, as a JavaScript template literal prints it.\<close>

fun string_of_nat :: "nat \<Rightarrow> string" where
  "string_of_nat n =
     (if n < 10 then [''0123456789'' ! n]
      else string_of_nat (n div 10) @ [''0123456789'' ! (n mod 10)])"

declare string_of_nat.simps [simp del]

definition string_of_int :: "int \<Rightarrow> string" where
  "string_of_int i =
     (if i < 0 then ''-'' @ string_of_nat (nat (- i)) else string_of_nat (nat i))"

text \<open>
  A bucket is a Redis hash with the fields \<^verbatim>\<open>tokens\<close> and \<^verbatim>\<open>lastRefill\<close>. A field
  is \<open>None\<close> when it is missing or when Lua's \<^verbatim>\<open>tonumber\<close> cannot read it.
\<close>

record hash =
  tokens_f :: "number option"
  lastRefill_f :: "number option"

text \<open>The commands a client sends; the store keeps the list of those it was sent.\<close>

datatype redis_cmd = PING | EVAL string

datatype store_error = ConnectionError | ScriptError

record redis =
  hashes :: "string \<Rightarrow> hash option"
  ttl :: "string \<Rightarrow> int option"
  up :: bool
  issued :: "redis_cmd list"

text \<open>
  \<open>hashes\<close> maps a key to its bucket, \<open>ttl\<close> holds the time to live (seconds) that the
  last \<^verbatim>\<open>EXPIRE\<close> gave a key, \<open>up\<close> says whether a command sent by a client is
  answered (a command sent while the store is down fails at the client), and \<open>issued\<close>
  lists the commands sent so far. The removal of a key when its time to live has run out
  happens on the server's own clock and is not part of the model.
\<close>

definition HMGET :: "redis \<Rightarrow> string \<Rightarrow> number option \<times> number option" where
  "HMGET r key =
     (case hashes r key of
        None \<Rightarrow> (None, None)
      | Some h \<Rightarrow> (tokens_f h, lastRefill_f h))"

definition HMSET :: "redis \<Rightarrow> string \<Rightarrow> number \<Rightarrow> number \<Rightarrow> redis" where
  "HMSET r key t l =
     r\<lparr>hashes := (hashes r)(key \<mapsto> \<lparr>tokens_f = Some t, lastRefill_f = Some l\<rparr>)\<rparr>"

text \<open>\<^verbatim>\<open>EXPIRE\<close> with a time to live that is not positive deletes the key.\<close>

definition EXPIRE :: "redis \<Rightarrow> string \<Rightarrow> int \<Rightarrow> redis" where
  "EXPIRE r key n =
     (if n \<le> 0 then r\<lparr>hashes := (hashes r)(key := None), ttl := (ttl r)(key := None)\<rparr>
      else r\<lparr>ttl := (ttl r)(key \<mapsto> n)\<rparr>)"

section \<open>The token bucket script\<close>

text \<open>
  What the script returns: the Lua table \<^verbatim>\<open>{1, capacity - currentTokens}\<close> or
  \<^verbatim>\<open>{0, 0, retryAfter}\<close>, that is two numbers and an optional third.
\<close>

datatype lua_reply = Reply number number "number option"

text \<open>
  Lines 24 to 31 of the script: read the bucket, default a missing field, refill.
  \<^verbatim>\<open>
  local bucket = redis.call('HMGET', key, 'tokens', 'lastRefill')
  local currentTokens = tonumber(bucket[1]) or capacity
  local lastRefill = tonumber(bucket[2]) or now
  local elapsed = now - lastRefill
  local tokensToAdd = elapsed * refillRate
  currentTokens = math.min(capacity, currentTokens + tokensToAdd)
  \<close>
\<close>

definition refill :: "string \<Rightarrow> number \<Rightarrow> number \<Rightarrow> number \<Rightarrow> redis \<Rightarrow> number" where
  "refill key capacity refillRate now r =
     (let bucket = HMGET r key;
          currentTokens = (case fst bucket of Some t \<Rightarrow> t | None \<Rightarrow> capacity);
          lastRefill = (case snd bucket of Some l \<Rightarrow> l | None \<Rightarrow> now);
          elapsed = now - lastRefill;
          tokensToAdd = elapsed * refillRate
      in min capacity (currentTokens + tokensToAdd))"

text \<open>
  Lines 33 to 43. Both branches write the bucket and then set its time to live to
  \<^verbatim>\<open>math.ceil(capacity / refillRate)\<close>. With \<open>refillRate = 0\<close> the quotient is not a
  finite number in Lua, \<^verbatim>\<open>EXPIRE\<close> refuses it and the script stops with an error after
  the \<^verbatim>\<open>HMSET\<close> has been done (Redis does not roll a script back).
\<close>

definition TOKEN_BUCKET_SCRIPT ::
  "string \<Rightarrow> number \<Rightarrow> number \<Rightarrow> number \<Rightarrow> number \<Rightarrow> redis \<Rightarrow> (store_error + lua_reply) \<times> redis" where
  "TOKEN_BUCKET_SCRIPT key capacity tokens refillRate now r =
     (let currentTokens = refill key capacity refillRate now r
      in if currentTokens \<ge> tokens then
           (let currentTokens = currentTokens - tokens;
                r = HMSET r key currentTokens now
            in if refillRate = 0 then (Inl ScriptError, r)
               else (Inr (Reply 1 (capacity - currentTokens) None),
                     EXPIRE r key \<lceil>capacity / refillRate\<rceil>))
         else
           (let r = HMSET r key currentTokens now
            in if refillRate = 0 then (Inl ScriptError, r)
               else (Inr (Reply 0 0 (Some (of_int \<lceil>(tokens - currentTokens) / refillRate\<rceil>))),
                     EXPIRE r key \<lceil>capacity / refillRate\<rceil>)))"



text \<open>The token count a key holds, if it holds one.\<close>

definition tokens_of :: "redis \<Rightarrow> string \<Rightarrow> number option" where
  "tokens_of r key = fst (HMGET r key)"

definition lastRefill_of :: "redis \<Rightarrow> string \<Rightarrow> number option" where
  "lastRefill_of r key = snd (HMGET r key)"

subsection \<open>The script in double precision\<close>

text \<open>
  Rounding to the nearest double: a number \<open>x \<noteq> 0\<close> with \<open>2 ^ e \<le> \<bar>x\<bar> < 2 ^ (e + 1)\<close>
  is rounded to the nearest multiple of \<open>2 ^ (e - 52)\<close>, a tie going to the even
  multiple. The exponent is not bounded: overflow to infinity and gradual underflow, which
  need magnitudes of \<open>2 ^ 1024\<close> and above or below \<open>2 ^ (- 1022)\<close>, are not modelled.
\<close>

definition round_even :: "rat \<Rightarrow> int" where
  "round_even x =
     (let f = \<lfloor>x\<rfloor>; d = x - of_int f
      in if d < 1 / 2 then f else if 1 / 2 < d then f + 1
         else if even f then f else f + 1)"

text \<open>For \<open>x > 0\<close>, \<open>expo x\<close> is the \<open>e\<close> with \<open>2 ^ e \<le> x < 2 ^ (e + 1)\<close>.\<close>

definition expo :: "rat \<Rightarrow> int" where
  "expo x =
     (let (p, q) = quotient_of x; k = bitlen p - bitlen q
      in if 2 powi k \<le> x then k else k - 1)"

definition double :: "rat \<Rightarrow> rat" where
  "double x =
     (if x = 0 then 0
      else (let a = \<bar>x\<bar>; e = expo a
            in sgn x * of_int (round_even (a * 2 powi (52 - e))) * 2 powi (e - 52)))"

text \<open>
  Lines 24 to 31 as Lua evaluates them: \<^verbatim>\<open>tonumber\<close> reads a stored field as a double,
  and the difference, the product and the sum are each rounded.
\<close>

definition refill_double :: "string \<Rightarrow> number \<Rightarrow> number \<Rightarrow> number \<Rightarrow> redis \<Rightarrow> number" where
  "refill_double key capacity refillRate now r =
     (let bucket = HMGET r key;
          currentTokens = (case fst bucket of Some t \<Rightarrow> double t | None \<Rightarrow> capacity);
          lastRefill = (case snd bucket of Some l \<Rightarrow> double l | None \<Rightarrow> now);
          elapsed = double (now - lastRefill);
          tokensToAdd = double (elapsed * refillRate)
      in min capacity (double (currentTokens + tokensToAdd)))"

text \<open>
  The whole script as Lua evaluates it. Lines 19 to 22 read the four arguments with
  \<^verbatim>\<open>tonumber\<close>; \<^verbatim>\<open>math.min\<close>, \<^verbatim>\<open>math.ceil\<close> and the comparison are exact on doubles.
\<close>

definition TOKEN_BUCKET_SCRIPT_double ::
  "string \<Rightarrow> number \<Rightarrow> number \<Rightarrow> number \<Rightarrow> number \<Rightarrow> redis \<Rightarrow> (store_error + lua_reply) \<times> redis" where
  "TOKEN_BUCKET_SCRIPT_double key ARGV1 ARGV2 ARGV3 ARGV4 r =
     (let capacity = double ARGV1;
          tokens = double ARGV2;
          refillRate = double ARGV3;
          now = double ARGV4;
          currentTokens = refill_double key capacity refillRate now r
      in if currentTokens \<ge> tokens then
           (let currentTokens = double (currentTokens - tokens);
                r = HMSET r key currentTokens now
            in if refillRate = 0 then (Inl ScriptError, r)
               else (Inr (Reply 1 (double (capacity - currentTokens)) None),
                     EXPIRE r key \<lceil>double (capacity / refillRate)\<rceil>))
         else
           (let r = HMSET r key currentTokens now
            in if refillRate = 0 then (Inl ScriptError, r)
               else (Inr (Reply 0 0
                       (Some (of_int \<lceil>double (double (tokens - currentTokens) / refillRate)\<rceil>))),
                     EXPIRE r key \<lceil>double (capacity / refillRate)\<rceil>)))"



section \<open>The client side: \<^verbatim>\<open>RateLimitService\<close>\<close>

text \<open>
  \<^verbatim>\<open>this.redis.eval(TOKEN_BUCKET_SCRIPT, 1, key, capacity, tokens, refillRate, now)\<close>:
  the command is sent; a store that is down makes the call throw; otherwise the script
  runs as one command. Redis turns each Lua number of the reply into an integer,
  dropping the fraction.
\<close>

definition lua_to_integer :: "number \<Rightarrow> number" where
  "lua_to_integer x = of_int (if 0 \<le> x then \<lfloor>x\<rfloor> else \<lceil>x\<rceil>)"

definition redis_eval ::
  "redis \<Rightarrow> string \<Rightarrow> number \<Rightarrow> number \<Rightarrow> number \<Rightarrow> number \<Rightarrow> (store_error + lua_reply) \<times> redis" where
  "redis_eval r key capacity tokens refillRate now =
     (let r = r\<lparr>issued := issued r @ [EVAL key]\<rparr>
      in if up r then
           (case TOKEN_BUCKET_SCRIPT key capacity tokens refillRate now r of
              (Inr (Reply a b c), r') \<Rightarrow>
                (Inr (Reply (lua_to_integer a) (lua_to_integer b) (map_option lua_to_integer c)), r')
            | (Inl e, r') \<Rightarrow> (Inl e, r'))
         else (Inl ConnectionError, r))"

record RateLimitResult =
  allowed :: bool
  remaining :: number
  reset :: number
  retryAfter :: "number option"

record TokenBucketConfig =
  capacity :: number
  refillRate :: number

text \<open>
  The two private fields of the class: \<open>redis\<close> says whether \<^verbatim>\<open>this.redis\<close> holds the
  client (it is \<^verbatim>\<open>null\<close> otherwise).
\<close>

record RateLimitService =
  redis :: bool
  enabled :: bool

text \<open>
  \<^verbatim>\<open>checkTokenBucket(key, config, tokens)\<close>. \<open>dateNow\<close> is the reading of
  \<^verbatim>\<open>Date.now()\<close> (milliseconds) during the call; \<^verbatim>\<open>Math.floor(Date.now() / 1000)\<close>
  is \<open>dateNow div 1000\<close>. The \<^verbatim>\<open>catch\<close> block returns the same object as the
  fallback for a disabled service.
\<close>

definition fail_open :: "TokenBucketConfig \<Rightarrow> int \<Rightarrow> RateLimitResult" where
  "fail_open config dateNow =
     \<lparr>allowed = True, remaining = capacity config, reset = of_int dateNow + 60000,
      retryAfter = None\<rparr>"

definition checkTokenBucket ::
  "RateLimitService \<Rightarrow> string \<Rightarrow> TokenBucketConfig \<Rightarrow> number \<Rightarrow> int \<Rightarrow> redis
     \<Rightarrow> RateLimitResult \<times> redis" where
  "checkTokenBucket svc key config tokens dateNow r =
     (if \<not> enabled svc \<or> \<not> redis svc then (fail_open config dateNow, r)
      else
        (let now = of_int (dateNow div 1000)
         in case redis_eval r key (capacity config) tokens (refillRate config) now of
              (Inr (Reply result0 result1 result2), r') \<Rightarrow>
                (\<lparr>allowed = (result0 = 1),
                  remaining = result1,
                  reset = of_int dateNow + (capacity config / refillRate config) * 1000,
                  retryAfter =
                    (case result2 of
                       Some seconds \<Rightarrow> if seconds \<noteq> 0 then Some (seconds * 1000) else None
                     | None \<Rightarrow> None)\<rparr>, r')
            | (Inl e, r') \<Rightarrow> (fail_open config dateNow, r')))"

definition checkPerChatLimit ::
  "RateLimitService \<Rightarrow> int \<Rightarrow> number \<Rightarrow> int \<Rightarrow> redis \<Rightarrow> RateLimitResult \<times> redis" where
  "checkPerChatLimit svc chatId tokens dateNow r =
     checkTokenBucket svc (''rate:chat:'' @ string_of_int chatId)
       \<lparr>capacity = 20, refillRate = 20 / 60\<rparr> tokens dateNow r"

text \<open>\<^verbatim>\<open>botId || "default"\<close>: a missing or empty identifier gives the default key.\<close>

definition botKey :: "string option \<Rightarrow> string" where
  "botKey botId = (case botId of Some b \<Rightarrow> if b \<noteq> [] then b else ''default'' | None \<Rightarrow> ''default'')"

definition checkGlobalLimit ::
  "RateLimitService \<Rightarrow> string option \<Rightarrow> number \<Rightarrow> int \<Rightarrow> redis \<Rightarrow> RateLimitResult \<times> redis" where
  "checkGlobalLimit svc botId tokens dateNow r =
     checkTokenBucket svc (''rate:global:'' @ botKey botId)
       \<lparr>capacity = 30, refillRate = 30\<rparr> tokens dateNow r"

definition checkBroadcastLimit ::
  "RateLimitService \<Rightarrow> string option \<Rightarrow> number \<Rightarrow> int \<Rightarrow> redis \<Rightarrow> RateLimitResult \<times> redis" where
  "checkBroadcastLimit svc botId tokens dateNow r =
     checkTokenBucket svc (''rate:broadcast:'' @ botKey botId)
       \<lparr>capacity = 15, refillRate = 15 / 60\<rparr> tokens dateNow r"

section \<open>The middleware\<close>

datatype on_limit = OnLimitQueue | OnLimitReject | OnLimitDelay

datatype on_redis_error = OnErrorAllow | OnErrorReject

text \<open>
  What the middleware reads and writes besides the request: the settings under
  \<^verbatim>\<open>config.rateLimit\<close>, the module variable \<^verbatim>\<open>rateLimiter\<close>, the client singleton of
  \<^verbatim>\<open>RedisService\<close> (\<open>instance\<close>: it has been created; \<open>client_ok\<close>: creating it
  succeeds) and the store.
\<close>

record world =
  rateLimit_enabled :: bool
  onLimit :: on_limit
  onRedisError :: on_redis_error
  queueTimeout :: number
  rateLimiter :: "RateLimitService option"
  "instance" :: bool
  client_ok :: bool
  store :: redis

text \<open>
  The fields of the grammY context the middleware reads: \<^verbatim>\<open>ctx.chat?.id\<close>,
  \<^verbatim>\<open>ctx.from?.id\<close>, \<^verbatim>\<open>ctx.me?.id\<close> and whether \<^verbatim>\<open>ctx.callbackQuery\<close> is set.
\<close>

record MyContext =
  chat_id :: "int option"
  from_id :: "int option"
  me_id :: "int option"
  callbackQuery :: bool

text \<open>
  The texts the middleware sends, in the order of the source: the alert "Please wait a
  moment before trying again", "Rate limit exceeded. Please wait n seconds.", "Rate
  limit exceeded. Please wait a moment before trying again.", the alert "Service
  temporarily unavailable" and the reply "Service temporarily unavailable. Please try
  again later.".
\<close>

datatype message =
  PleaseWaitAlert | RateLimitExceededSeconds int | RateLimitExceededMoment
  | UnavailableAlert | UnavailableReply

text \<open>
  What a run of the middleware does to the outside, in order: it calls \<^verbatim>\<open>next()\<close>,
  answers a callback query, replies, logs the exceeded limit with \<^verbatim>\<open>console.warn\<close>, or
  waits with \<^verbatim>\<open>setTimeout\<close>. \<open>ctx_rateLimit\<close> is the value left in \<^verbatim>\<open>ctx.rateLimit\<close>
  and \<open>thrown\<close> says whether the run ends with an exception.
\<close>

datatype effect =
  Next | AnswerCallbackQuery message | ReplyWith message | Warn string | SetTimeout number

record outcome =
  effects :: "effect list"
  ctx_rateLimit :: "(RateLimitResult \<times> RateLimitResult) option"
  thrown :: bool

text \<open>
  \<^verbatim>\<open>RedisService.getInstance()\<close> returns the client, creating it on first use; the
  Boolean says whether it returned (\<open>False\<close>: it threw).
\<close>

definition getInstance :: "world \<Rightarrow> bool \<times> world" where
  "getInstance w =
     (if instance w then (True, w)
      else if client_ok w then (True, w\<lparr>instance := True\<rparr>)
      else (False, w))"

text \<open>
  \<^verbatim>\<open>RedisService.healthCheck()\<close>: it gets the client, sends \<^verbatim>\<open>PING\<close> and catches
  every error; the Boolean is the value its promise resolves to.
\<close>

definition healthCheck :: "world \<Rightarrow> bool \<times> world" where
  "healthCheck w =
     (case getInstance w of
        (True, w') \<Rightarrow>
          (up (store w'), w'\<lparr>store := (store w')\<lparr>issued := issued (store w') @ [PING]\<rparr>\<rparr>)
      | (False, w') \<Rightarrow> (False, w'))"

text \<open>The constructor \<^verbatim>\<open>new RateLimitService(enabled)\<close>.\<close>

definition new_RateLimitService :: "bool \<Rightarrow> world \<Rightarrow> RateLimitService \<times> world" where
  "new_RateLimitService e w =
     (if e then
        (case getInstance w of
           (True, w') \<Rightarrow> (\<lparr>redis = True, enabled = True\<rparr>, w')
         | (False, w') \<Rightarrow> (\<lparr>redis = False, enabled = False\<rparr>, w'))
      else (\<lparr>redis = False, enabled = False\<rparr>, w))"

text \<open>
  \<^verbatim>\<open>initializeRateLimiter()\<close>. The source calls the asynchronous \<^verbatim>\<open>healthCheck\<close>
  without \<^verbatim>\<open>await\<close>: the call runs up to the sending of \<^verbatim>\<open>PING\<close> and hands back a
  promise, and \<^verbatim>\<open>!healthy\<close> on a promise is false, so the branch that switches rate
  limiting off is never taken. Nothing inside the \<^verbatim>\<open>try\<close> block throws
  (\<^verbatim>\<open>healthCheck\<close> and the constructor catch their own errors), so the \<^verbatim>\<open>catch\<close>
  block has no counterpart here.
\<close>

definition initializeRateLimiter :: "world \<Rightarrow> world" where
  "initializeRateLimiter w =
     (if rateLimiter w = None \<and> rateLimit_enabled w then
        (let (healthy, w1) = healthCheck w;
             (svc, w2) = new_RateLimitService True w1
         in w2\<lparr>rateLimiter := Some svc\<rparr>)
      else w)"

text \<open>JavaScript's \<^verbatim>\<open>a || b\<close> on optional numbers: \<^verbatim>\<open>undefined\<close> and \<open>0\<close> are falsy.\<close>

definition js_or :: "number option \<Rightarrow> number option \<Rightarrow> number option" where
  "js_or a b = (case a of Some x \<Rightarrow> if x \<noteq> 0 then Some x else b | None \<Rightarrow> b)"

definition js_or_default :: "number option \<Rightarrow> number \<Rightarrow> number" where
  "js_or_default a d = (case a of Some x \<Rightarrow> if x \<noteq> 0 then x else d | None \<Rightarrow> d)"

text \<open>
  Lines 89 to 91: whether a limit was exceeded and, if so, \<^verbatim>\<open>whichLimit\<close> and
  \<^verbatim>\<open>retryAfter\<close>.
\<close>

definition exceeded ::
  "RateLimitResult \<Rightarrow> RateLimitResult \<Rightarrow> (string \<times> number option) option" where
  "exceeded perChatResult globalResult =
     (if \<not> allowed perChatResult \<or> \<not> allowed globalResult then
        Some (if \<not> allowed perChatResult then ''chat'' else ''global'',
              js_or (retryAfter perChatResult) (retryAfter globalResult))
      else None)"

text \<open>
  The \<^verbatim>\<open>try\<close> block from the point where \<^verbatim>\<open>next()\<close> is awaited, and the \<^verbatim>\<open>catch\<close>
  block behind it: \<open>before\<close> are the effects so far, \<open>next_throws\<close> says whether the
  downstream handler throws. \<^verbatim>\<open>ctx.reply\<close> and \<^verbatim>\<open>ctx.answerCallbackQuery\<close> are
  taken to succeed.
\<close>

definition call_next_guarded ::
  "MyContext \<Rightarrow> bool \<Rightarrow> world \<Rightarrow> effect list \<Rightarrow> effect list \<times> bool" where
  "call_next_guarded ctx next_throws w before =
     (if \<not> next_throws then (before @ [Next], False)
      else if onRedisError w = OnErrorAllow then (before @ [Next, Next], True)
      else (before @ [Next,
              if callbackQuery ctx then AnswerCallbackQuery UnavailableAlert
              else ReplyWith UnavailableReply], False))"

text \<open>
  \<^verbatim>\<open>rateLimit(ctx, next)\<close>. \<open>t1\<close> and \<open>t2\<close> are the readings of \<^verbatim>\<open>Date.now()\<close>
  during the per-chat and the global check.
\<close>

definition rateLimit ::
  "MyContext \<Rightarrow> bool \<Rightarrow> int \<Rightarrow> int \<Rightarrow> world \<Rightarrow> outcome \<times> world" where
  "rateLimit ctx next_throws t1 t2 w0 =
     (if \<not> rateLimit_enabled w0 then
        (\<lparr>effects = [Next], ctx_rateLimit = None, thrown = next_throws\<rparr>, w0)
      else
        (let w = initializeRateLimiter w0
         in case rateLimiter w of
              None \<Rightarrow> (\<lparr>effects = [Next], ctx_rateLimit = None, thrown = next_throws\<rparr>, w)
            | Some svc \<Rightarrow>
                (case chat_id ctx of
                   None \<Rightarrow> (\<lparr>effects = [Next], ctx_rateLimit = None, thrown = next_throws\<rparr>, w)
                 | Some chatId \<Rightarrow>
                     if chatId = 0 then
                       (\<lparr>effects = [Next], ctx_rateLimit = None, thrown = next_throws\<rparr>, w)
                     else
                       (let (perChatResult, r1) = checkPerChatLimit svc chatId 1 t1 (store w);
                            botId = me_id ctx;
                            (globalResult, r2) =
                               checkGlobalLimit svc (map_option string_of_int botId) 1 t2 r1;
                            w' = w\<lparr>store := r2\<rparr>;
                            info = Some (perChatResult, globalResult)
                        in case exceeded perChatResult globalResult of
                             Some (whichLimit, hint) \<Rightarrow>
                               (case onLimit w' of
                                  OnLimitReject \<Rightarrow>
                                    (\<lparr>effects =
                                        [Warn whichLimit,
                                         if callbackQuery ctx then AnswerCallbackQuery PleaseWaitAlert
                                         else ReplyWith
                                           (case js_or hint None of
                                              Some ms \<Rightarrow> RateLimitExceededSeconds \<lceil>ms / 1000\<rceil>
                                            | None \<Rightarrow> RateLimitExceededMoment)],
                                      ctx_rateLimit = info, thrown = False\<rparr>, w')
                                | OnLimitDelay \<Rightarrow>
                                    (let (es, th) =
                                       call_next_guarded ctx next_throws w'
                                         [Warn whichLimit,
                                          SetTimeout (min (js_or_default hint 1000) (queueTimeout w'))]
                                     in (\<lparr>effects = es, ctx_rateLimit = info, thrown = th\<rparr>, w'))
                                | OnLimitQueue \<Rightarrow>
                                    (let (es, th) =
                                       call_next_guarded ctx next_throws w' [Warn whichLimit]
                                     in (\<lparr>effects = es, ctx_rateLimit = info, thrown = th\<rparr>, w')))
                           | None \<Rightarrow>
                               (let (es, th) = call_next_guarded ctx next_throws w' []
                                in (\<lparr>effects = es, ctx_rateLimit = info, thrown = th\<rparr>, w'))))))"

text \<open>
  \<^verbatim>\<open>createAdminRateLimit(adminIds)\<close>: the guard \<^verbatim>\<open>ctx.from?.id && adminIds.includes(ctx.from.id)\<close>
  is false for a missing sender and for the sender id \<open>0\<close>.
\<close>

definition createAdminRateLimit ::
  "int list \<Rightarrow> MyContext \<Rightarrow> bool \<Rightarrow> int \<Rightarrow> int \<Rightarrow> world \<Rightarrow> outcome \<times> world" where
  "createAdminRateLimit adminIds ctx next_throws t1 t2 w =
     (if (case from_id ctx of Some i \<Rightarrow> i \<noteq> 0 \<and> i \<in> set adminIds | None \<Rightarrow> False) then
        (\<lparr>effects = [Next], ctx_rateLimit = None, thrown = next_throws\<rparr>, w)
      else rateLimit ctx next_throws t1 t2 w)"

section \<open>Example states\<close>


definition per_chat_rate :: number where
  "per_chat_rate = double (20 / 60)"


definition spent_store :: redis where
  "spent_store =
     \<lparr>hashes = [''rate:chat:7'' \<mapsto> \<lparr>tokens_f = Some 0, lastRefill_f = Some 100\<rparr>],
      ttl = [''rate:chat:7'' \<mapsto> 60], up = True, issued = []\<rparr>"

definition steady_store :: redis where
  "steady_store =
     \<lparr>hashes = [''rate:chat:7'' \<mapsto> \<lparr>tokens_f = Some 1, lastRefill_f = Some 100\<rparr>],
      ttl = [''rate:chat:7'' \<mapsto> 60], up = True, issued = []\<rparr>"

text \<open>
  A service that holds the client, stores that are empty, down, or hold buckets written by
  an instance whose clock runs ahead, a world before and after the lazy initialisation,
  and a message from user 42 in chat 7.
\<close>

definition active_service :: RateLimitService where
  "active_service = \<lparr>redis = True, enabled = True\<rparr>"

definition empty_store :: redis where
  "empty_store = \<lparr>hashes = Map.empty, ttl = Map.empty, up = True, issued = []\<rparr>"


definition clash_store :: redis where
  "clash_store =
     \<lparr>hashes = [''rate:chat:7'' \<mapsto> \<lparr>tokens_f = Some (3 / 4), lastRefill_f = Some 100\<rparr>,
                ''rate:global:default'' \<mapsto> \<lparr>tokens_f = Some 1, lastRefill_f = Some 102\<rparr>],
      ttl = [''rate:chat:7'' \<mapsto> 60, ''rate:global:default'' \<mapsto> 1],
      up = True, issued = []\<rparr>"

definition global_spent_store :: redis where
  "global_spent_store =
     \<lparr>hashes = [''rate:global:default'' \<mapsto> \<lparr>tokens_f = Some 0, lastRefill_f = Some 100\<rparr>],
      ttl = [''rate:global:default'' \<mapsto> 1], up = True, issued = []\<rparr>"

definition fresh_world :: world where
  "fresh_world =
     \<lparr>rateLimit_enabled = True, onLimit = OnLimitReject, onRedisError = OnErrorAllow,
      queueTimeout = 5000, rateLimiter = None, instance = True, client_ok = True,
      store = empty_store\<rparr>"

definition active_world :: "redis \<Rightarrow> world" where
  "active_world r = fresh_world\<lparr>rateLimiter := Some active_service, store := r\<rparr>"

definition chat7 :: MyContext where
  "chat7 = \<lparr>chat_id = Some 7, from_id = Some 42, me_id = None, callbackQuery = False\<rparr>"

section \<open>The script: refill, grant and denial\<close>

lemma script_denied:
  assumes "0 < R" "0 < cap" "refill key cap R now r < tokens"
  shows "TOKEN_BUCKET_SCRIPT key cap tokens R now r =
           (Inr (Reply 0 0 (Some (of_int \<lceil>(tokens - refill key cap R now r) / R\<rceil>))),
            EXPIRE (HMSET r key (refill key cap R now r) now) key \<lceil>cap / R\<rceil>)"
  using assms by (simp add: TOKEN_BUCKET_SCRIPT_def Let_def)

lemma script_granted:
  assumes "0 < R" "0 < cap" "tokens \<le> refill key cap R now r"
  shows "TOKEN_BUCKET_SCRIPT key cap tokens R now r =
           (Inr (Reply 1 (cap - (refill key cap R now r - tokens)) None),
            EXPIRE (HMSET r key (refill key cap R now r - tokens) now) key \<lceil>cap / R\<rceil>)"
  using assms by (simp add: TOKEN_BUCKET_SCRIPT_def Let_def)









subsection \<open>Rounding to doubles\<close>

text \<open>
  Rounding is monotone, leaves zero and every double fixed, and keeps the sign. These
  are the facts about \<open>double\<close> that the statements on denials need.
\<close>

lemma round_even_floor: "\<lfloor>x\<rfloor> \<le> round_even x" "round_even x \<le> \<lfloor>x\<rfloor> + 1"
  by (simp_all add: round_even_def Let_def)

lemma round_even_of_int [simp]: "round_even (of_int n) = n"
  by (simp add: round_even_def)

lemma round_even_mono:
  assumes "x \<le> y"
  shows "round_even x \<le> round_even y"
proof (cases "\<lfloor>x\<rfloor> = \<lfloor>y\<rfloor>")
  case True
  have "x - of_int \<lfloor>y\<rfloor> \<le> y - of_int \<lfloor>y\<rfloor>"
    using assms by simp
  then show ?thesis
    by (auto simp add: round_even_def Let_def True)
next
  case False
  then have "\<lfloor>x\<rfloor> < \<lfloor>y\<rfloor>"
    using assms floor_mono [of x y] by linarith
  then have "round_even x \<le> \<lfloor>y\<rfloor>"
    using round_even_floor(2) [of x] by linarith
  then show ?thesis
    using round_even_floor(1) [of y] by linarith
qed

lemma round_even_ge: "of_int n \<le> x \<Longrightarrow> n \<le> round_even x"
  using round_even_mono [of "of_int n" x] by simp

lemma round_even_le: "x \<le> of_int n \<Longrightarrow> round_even x \<le> n"
  using round_even_mono [of x "of_int n"] by simp

lemma powi2_pos [simp]: "0 < (2::rat) powi k"
  by (simp add: zero_less_power_int)

lemma powi2_less_imp:
  assumes "(2::rat) powi a < 2 powi (b + 1)"
  shows "a \<le> b"
proof (rule ccontr)
  assume "\<not> a \<le> b"
  then have "b + 1 \<le> a" by simp
  then have "(2::rat) powi (b + 1) \<le> 2 powi a"
    by (rule power_int_increasing) simp
  with assms show False by simp
qed

lemma expo_bounds:
  assumes "0 < x"
  shows "2 powi (expo x) \<le> x" and "x < 2 powi (expo x + 1)"
proof -
  obtain p q where pq: "quotient_of x = (p, q)"
    by (cases "quotient_of x")
  then have q: "0 < q" and x: "x = of_int p / of_int q"
    by (simp_all add: quotient_of_denom_pos quotient_of_div)
  with assms have p: "0 < p"
    by (simp add: zero_less_divide_iff)
  let ?k = "bitlen p - bitlen q"
  have bp: "1 \<le> bitlen p" and bq: "1 \<le> bitlen q"
    using p q bitlen_eq_zero_iff [of p] bitlen_eq_zero_iff [of q] bitlen_nonneg [of p]
      bitlen_nonneg [of q] by linarith+
  have "(2::int) ^ nat (bitlen p - 1) \<le> p" "p < 2 ^ nat (bitlen p)"
    "(2::int) ^ nat (bitlen q - 1) \<le> q" "q < 2 ^ nat (bitlen q)"
    using bitlen_bounds [OF p] bitlen_bounds [OF q] by simp_all
  then have P: "(2::rat) powi (bitlen p - 1) \<le> of_int p" "of_int p < (2::rat) powi (bitlen p)"
    and Q: "(2::rat) powi (bitlen q - 1) \<le> of_int q" "of_int q < (2::rat) powi (bitlen q)"
    using bp bq bitlen_nonneg [of p] bitlen_nonneg [of q]
    by (simp_all add: power_int_def of_int_power_le_of_int_cancel_iff [symmetric]
        of_int_less_numeral_power_cancel_iff del: of_int_power_le_of_int_cancel_iff)
  have qpos: "(0::rat) < of_int q"
    using q by simp
  have up: "x < 2 powi (?k + 1)"
  proof -
    have "of_int p * 2 powi (bitlen q - 1) < 2 powi (bitlen p) * (of_int q :: rat)"
    proof -
      have "of_int p * 2 powi (bitlen q - 1) < 2 powi (bitlen p) * (2::rat) powi (bitlen q - 1)"
        using P(2) by simp
      also have "\<dots> \<le> 2 powi (bitlen p) * (of_int q :: rat)"
        using Q(1) by simp
      finally show ?thesis .
    qed
    then have "x * 2 powi (bitlen q - 1) < 2 powi (bitlen p)"
      using qpos by (simp add: x field_simps)
    then have "x < 2 powi (bitlen p) / 2 powi (bitlen q - 1)"
      by (simp add: pos_less_divide_eq)
    also have "\<dots> = 2 powi (?k + 1)"
      by (simp add: power_int_diff [symmetric] algebra_simps)
    finally show ?thesis .
  qed
  have lo: "2 powi (?k - 1) \<le> x"
  proof -
    have "2 powi (bitlen p - 1) * (of_int q :: rat) \<le> of_int p * 2 powi (bitlen q)"
    proof -
      have "2 powi (bitlen p - 1) * (of_int q :: rat) \<le> of_int p * of_int q"
        using P(1) qpos by simp
      also have "\<dots> \<le> of_int p * 2 powi (bitlen q)"
        using Q(2) p by simp
      finally show ?thesis .
    qed
    then have "2 powi (bitlen p - 1) \<le> x * 2 powi (bitlen q)"
      using qpos by (simp add: x field_simps)
    then have "2 powi (bitlen p - 1) / 2 powi (bitlen q) \<le> x"
      by (simp add: pos_divide_le_eq)
    moreover have "2 powi (bitlen p - 1) / 2 powi (bitlen q) = (2::rat) powi (?k - 1)"
      by (simp add: power_int_diff [symmetric] algebra_simps)
    ultimately show ?thesis by simp
  qed
  have e: "expo x = (if 2 powi ?k \<le> x then ?k else ?k - 1)"
    by (simp add: expo_def pq)
  show "2 powi (expo x) \<le> x"
    using lo by (simp add: e)
  show "x < 2 powi (expo x + 1)"
    using up by (auto simp add: e not_le)
qed

lemma expo_unique:
  assumes "0 < x" and "2 powi e \<le> x" and "x < 2 powi (e + 1)"
  shows "expo x = e"
proof (rule antisym)
  have "(2::rat) powi (expo x) < 2 powi (e + 1)"
    using expo_bounds(1) [OF assms(1)] assms(3) by simp
  then show "expo x \<le> e"
    by (rule powi2_less_imp)
  have "(2::rat) powi e < 2 powi (expo x + 1)"
    using expo_bounds(2) [OF assms(1)] assms(2) by simp
  then show "e \<le> expo x"
    by (rule powi2_less_imp)
qed

lemma expo_mono:
  assumes "0 < x" and "x \<le> y"
  shows "expo x \<le> expo y"
proof -
  have y: "0 < y" using assms by simp
  have "(2::rat) powi (expo x) < 2 powi (expo y + 1)"
    using expo_bounds(1) [OF assms(1)] expo_bounds(2) [OF y] assms(2) by simp
  then show ?thesis
    by (rule powi2_less_imp)
qed

lemma powi2_cancel: "(2::rat) powi k * 2 powi (e - k) = 2 powi e"
  by (simp add: power_int_add [symmetric])

lemma powi2_cancel_Suc: "(2::rat) powi (k + 1) * 2 powi (e - k) = 2 powi (e + 1)"
  by (simp add: power_int_add [symmetric] add.commute)

lemma double_0 [simp]: "double 0 = 0"
  by (simp add: double_def)

lemma double_pos:
  assumes "0 < x"
  shows "double x = of_int (round_even (x * 2 powi (52 - expo x))) * 2 powi (expo x - 52)"
  using assms by (simp add: double_def Let_def)

lemma double_minus: "double (- x) = - double x"
  by (simp add: double_def Let_def)

lemma mantissa_bounds:
  assumes "0 < x"
  shows "2 ^ 52 \<le> round_even (x * 2 powi (52 - expo x))"
    and "round_even (x * 2 powi (52 - expo x)) \<le> 2 ^ 53"
proof -
  let ?e = "expo x"
  have "2 powi ?e * 2 powi (52 - ?e) \<le> x * 2 powi (52 - ?e)"
    using expo_bounds(1) [OF assms] by simp
  moreover have "(2::rat) powi ?e * 2 powi (52 - ?e) = 2 powi 52"
    by (simp add: power_int_add [symmetric])
  ultimately have "of_int (2 ^ 52) \<le> x * 2 powi (52 - ?e)"
    by simp
  then show "2 ^ 52 \<le> round_even (x * 2 powi (52 - expo x))"
    by (rule round_even_ge)
  have "x * 2 powi (52 - ?e) \<le> 2 powi (?e + 1) * 2 powi (52 - ?e)"
    using expo_bounds(2) [OF assms] by simp
  moreover have "(2::rat) powi (?e + 1) * 2 powi (52 - ?e) = 2 powi 53"
    by (simp add: power_int_add [symmetric])
  ultimately have "x * 2 powi (52 - ?e) \<le> of_int (2 ^ 53)"
    by simp
  then show "round_even (x * 2 powi (52 - expo x)) \<le> 2 ^ 53"
    by (rule round_even_le)
qed

lemma double_range:
  assumes "0 < x"
  shows "2 powi (expo x) \<le> double x" and "double x \<le> 2 powi (expo x + 1)"
proof -
  define u :: rat where "u = 2 powi (expo x - 52)"
  define m where "m = round_even (x * 2 powi (52 - expo x))"
  have u: "0 < u"
    by (simp add: u_def)
  have d: "double x = of_int m * u"
    by (simp add: double_pos [OF assms] u_def m_def)
  have lo: "2 ^ 52 * u = 2 powi (expo x)"
    using powi2_cancel [of 52 "expo x"] by (simp add: u_def)
  have hi: "2 ^ 53 * u = 2 powi (expo x + 1)"
    using powi2_cancel_Suc [of 52 "expo x"] by (simp add: u_def)
  have "(of_int (2 ^ 52) :: rat) \<le> of_int m"
    using mantissa_bounds(1) [OF assms] unfolding m_def by (simp only: of_int_le_iff)
  then have "(2::rat) ^ 52 * u \<le> of_int m * u"
    using u by simp
  then show "2 powi (expo x) \<le> double x"
    by (simp only: lo d)
  have "(of_int m :: rat) \<le> of_int (2 ^ 53)"
    using mantissa_bounds(2) [OF assms] unfolding m_def by (simp only: of_int_le_iff)
  then have "of_int m * u \<le> (2::rat) ^ 53 * u"
    using u by simp
  then show "double x \<le> 2 powi (expo x + 1)"
    by (simp only: hi d)
qed

lemma double_pos_pos: "0 < x \<Longrightarrow> 0 < double x"
  using double_range(1) [of x] powi2_pos [of "expo x"] by linarith

lemma double_mono_pos:
  assumes "0 < x" and "x \<le> y"
  shows "double x \<le> double y"
proof -
  have y: "0 < y" using assms by simp
  show ?thesis
  proof (cases "expo x = expo y")
    case True
    have "x * 2 powi (52 - expo y) \<le> y * 2 powi (52 - expo y)"
      using assms(2) by simp
    then have "round_even (x * 2 powi (52 - expo y)) \<le> round_even (y * 2 powi (52 - expo y))"
      by (rule round_even_mono)
    then have "(of_int (round_even (x * 2 powi (52 - expo y))) :: rat)
                 \<le> of_int (round_even (y * 2 powi (52 - expo y)))"
      by simp
    then show ?thesis
      by (simp add: double_pos [OF assms(1)] double_pos [OF y] True)
  next
    case False
    then have "expo x + 1 \<le> expo y"
      using expo_mono [OF assms] by simp
    then have "(2::rat) powi (expo x + 1) \<le> 2 powi (expo y)"
      by (rule power_int_increasing) simp
    then show ?thesis
      using double_range(2) [OF assms(1)] double_range(1) [OF y] by simp
  qed
qed

lemma double_mono:
  assumes "x \<le> y"
  shows "double x \<le> double y"
proof -
  consider "0 < x" | "x = 0" "0 < y" | "x = 0" "y = 0" | "x < 0" "0 \<le> y" | "x < 0" "y < 0"
    using assms by linarith
  then show ?thesis
  proof cases
    case 1
    then show ?thesis using assms by (rule double_mono_pos)
  next
    case 2
    then show ?thesis using double_pos_pos [of y] by simp
  next
    case 3
    then show ?thesis by simp
  next
    case 4
    have "0 < double (- x)" using 4 by (simp add: double_pos_pos)
    then have "double x < 0" using double_minus [of x] by simp
    moreover have "0 \<le> double y"
      using 4 double_pos_pos [of y] by (cases "y = 0") auto
    ultimately show ?thesis by simp
  next
    case 5
    then have "double (- y) \<le> double (- x)"
      using assms by (intro double_mono_pos) simp_all
    then show ?thesis by (simp add: double_minus)
  qed
qed

lemma powi2_inverse: "(2::rat) powi (52 - e) * 2 powi (e - 52) = 1"
  using powi2_cancel [of "52 - e" 0] by simp

lemma double_fixI:
  assumes "0 < y" and "2 powi e \<le> y" and "y < 2 powi (e + 1)"
    and "y * 2 powi (52 - e) = of_int m"
  shows "double y = y"
proof -
  have e: "expo y = e"
    by (rule expo_unique [OF assms(1-3)])
  have "double y = of_int m * 2 powi (e - 52)"
    by (simp only: double_pos [OF assms(1)] e assms(4) round_even_of_int)
  also have "\<dots> = y * (2 powi (52 - e) * 2 powi (e - 52))"
    by (simp only: assms(4) [symmetric] mult.assoc)
  also have "\<dots> = y"
    by (simp only: powi2_inverse mult_1_right)
  finally show ?thesis .
qed

lemma double_idem_pos:
  assumes "0 < x"
  shows "double (double x) = double x"
proof -
  define e where "e = expo x"
  define m where "m = round_even (x * 2 powi (52 - e))"
  define u :: rat where "u = 2 powi (e - 52)"
  have u: "0 < u"
    by (simp add: u_def)
  have d: "double x = of_int m * u"
    by (simp add: double_pos [OF assms] u_def m_def e_def)
  have pos: "0 < double x"
    by (rule double_pos_pos [OF assms])
  have lo: "2 powi e \<le> double x" and hi: "double x \<le> 2 powi (e + 1)"
    using double_range [OF assms] by (simp_all add: e_def)
  have inv: "u * 2 powi (52 - e) = 1"
    using powi2_inverse [of e] by (simp add: u_def mult.commute)
  show ?thesis
  proof (cases "double x = 2 powi (e + 1)")
    case True
    have "(2::rat) powi (e + 1) < 2 powi (e + 1 + 1)"
      by (rule power_int_strict_increasing) simp_all
    moreover have "(2::rat) powi (e + 1) * 2 powi (52 - (e + 1)) = of_int (2 ^ 52)"
      using powi2_cancel [of "e + 1" 52] by (simp add: mult.commute)
    ultimately have "double (2 powi (e + 1)) = 2 powi (e + 1)"
      by (intro double_fixI [where e = "e + 1" and m = "2 ^ 52"]) simp_all
    then show ?thesis
      by (simp only: True)
  next
    case False
    then have lt: "double x < 2 powi (e + 1)"
      using hi by simp
    have "double x * 2 powi (52 - e) = of_int m * (u * 2 powi (52 - e))"
      by (simp only: d mult.assoc)
    then have "double x * 2 powi (52 - e) = of_int m"
      by (simp only: inv mult_1_right)
    then show ?thesis
      by (rule double_fixI [OF pos lo lt])
  qed
qed

lemma double_idem [simp]: "double (double x) = double x"
proof -
  consider "0 < x" | "x = 0" | "x < 0" by linarith
  then show ?thesis
  proof cases
    case 1
    then show ?thesis by (rule double_idem_pos)
  next
    case 2
    then show ?thesis by simp
  next
    case 3
    then have "double (double (- x)) = double (- x)"
      by (intro double_idem_pos) simp
    then show ?thesis by (simp add: double_minus)
  qed
qed

subsection \<open>Denials in double precision\<close>

text \<open>
  The denied branch of \<open>TOKEN_BUCKET_SCRIPT_double\<close>, and the values the double arithmetic
  takes at the per-chat and the broadcast limits.
\<close>

lemma ttl_double_pos:
  assumes "0 < R" and "0 < cap"
  shows "\<not> \<lceil>double (cap / R)\<rceil> \<le> 0"
proof -
  have "0 < double (cap / R)"
    using assms by (intro double_pos_pos) simp
  then have "0 < \<lceil>double (cap / R)\<rceil>"
    by simp
  then show ?thesis by simp
qed

lemma script_double_denied:
  assumes "0 < R" and "0 < cap"
    and "double cap = cap" and "double q = q" and "double R = R" and "double now = now"
    and "refill_double key cap R now r < q"
  shows "TOKEN_BUCKET_SCRIPT_double key cap q R now r =
           (Inr (Reply 0 0 (Some (of_int
              \<lceil>double (double (q - refill_double key cap R now r) / R)\<rceil>))),
            EXPIRE (HMSET r key (refill_double key cap R now r) now) key \<lceil>double (cap / R)\<rceil>)"
  using assms(1,7) by (simp add: TOKEN_BUCKET_SCRIPT_double_def Let_def assms(3-6))

lemma stored_after_write_double:
  assumes "0 < R" and "0 < cap"
  shows "tokens_of (EXPIRE (HMSET r key t now) key \<lceil>double (cap / R)\<rceil>) key = Some t"
    and "lastRefill_of (EXPIRE (HMSET r key t now) key \<lceil>double (cap / R)\<rceil>) key = Some now"
  using ttl_double_pos [OF assms]
  by (simp_all add: tokens_of_def lastRefill_of_def HMGET_def HMSET_def EXPIRE_def)

lemma refill_double_stored:
  assumes "tokens_of r key = Some t" and "lastRefill_of r key = Some l"
  shows "refill_double key cap R now r =
           min cap (double (double t + double (double (now - double l) * R)))"
  using assms by (simp add: refill_double_def tokens_of_def lastRefill_of_def Let_def)

lemma refill_double_is_double:
  assumes "double cap = cap"
  shows "double (refill_double key cap R now r) = refill_double key cap R now r"
  using assms by (simp add: refill_double_def Let_def min_def)

lemma refill_double_le: "refill_double key cap R now r \<le> cap"
  by (simp add: refill_double_def Let_def)

lemma double_values:
  "double 20 = 20" "double 1 = 1" "double 100 = 100" "double 101 = 101" "double 102 = 102"
  "double 15 = 15" "double 0 = 0" "double 5 = 5" "double (1 / 4) = 1 / 4"
  "double per_chat_rate = per_chat_rate" "0 < per_chat_rate" "per_chat_rate < 1"
  by code_simp+

lemma per_chat_values:
  "refill_double ''rate:chat:7'' 20 per_chat_rate 100 spent_store = 0"
  "\<lceil>double (double (1 - 0) / per_chat_rate)\<rceil> = 3"
  "min 20 (double (double 0 + double (double (101 - double 100) * per_chat_rate)))
     = per_chat_rate"
  "\<lceil>double (double (1 - per_chat_rate) / per_chat_rate)\<rceil> = 3"
  by code_simp+

lemma per_chat_values_later:
  "min 20 (double (double 0 + double (double (102 - double 100) * per_chat_rate))) < 1"
  "\<lceil>double (double (1 - min 20 (double (double 0 +
       double (double (102 - double 100) * per_chat_rate)))) / per_chat_rate)\<rceil> = 2"
  by code_simp+

lemma broadcast_values:
  "refill_double ''rate:broadcast:default'' 15 (1 / 4) 0 empty_store = 15"
  "\<lceil>double (double (20 - 15) / (1 / 4))\<rceil> = 20"
  "min 15 (double (double 15 + double (double (5 - double 0) * (1 / 4)))) = 15"
  by code_simp+

text \<open>
  Claim C3, as stated, fails. With the per-chat limits (capacity 20, rate 20/60) and a
  single-token request, the denial on an empty bucket at timestamp 100 and the denial one
  second later both report \<open>retryAfter = 3\<close>: the second quotient is
  \<open>2.0000000000000004\<close> in doubles. With the broadcast limits (capacity 15, rate 15/60)
  and a request of 20 tokens, the denials at timestamps 0 and 5 both report
  \<open>retryAfter = 20\<close>, since the refilled count is capped at the capacity.
\<close>

theorem repeated_denial_counterexample:
  "fst (TOKEN_BUCKET_SCRIPT_double ''rate:chat:7'' 20 1 per_chat_rate 100 spent_store)
     = Inr (Reply 0 0 (Some 3))
   \<and> fst (TOKEN_BUCKET_SCRIPT_double ''rate:chat:7'' 20 1 per_chat_rate 101
          (snd (TOKEN_BUCKET_SCRIPT_double ''rate:chat:7'' 20 1 per_chat_rate 100 spent_store)))
     = Inr (Reply 0 0 (Some 3))
   \<and> fst (TOKEN_BUCKET_SCRIPT_double ''rate:broadcast:default'' 15 20 (1 / 4) 0 empty_store)
     = Inr (Reply 0 0 (Some 20))
   \<and> fst (TOKEN_BUCKET_SCRIPT_double ''rate:broadcast:default'' 15 20 (1 / 4) 5
          (snd (TOKEN_BUCKET_SCRIPT_double ''rate:broadcast:default'' 15 20 (1 / 4) 0
             empty_store)))
     = Inr (Reply 0 0 (Some 20))"
proof -
  let ?k = "''rate:chat:7''"
  let ?R = "per_chat_rate"
  let ?r1 = "EXPIRE (HMSET spent_store ?k 0 100) ?k \<lceil>double (20 / ?R)\<rceil>"
  note dv = double_values
  have p20: "(0::rat) < 20" and p15: "(0::rat) < 15" and p14: "(0::rat) < 1 / 4"
    and lt1: "(0::rat) < 1" and lt20: "(15::rat) < 20"
    by simp_all
  have c1: "TOKEN_BUCKET_SCRIPT_double ?k 20 1 ?R 100 spent_store =
              (Inr (Reply 0 0 (Some 3)), ?r1)"
    using script_double_denied [OF dv(11) p20 dv(1) dv(2) dv(10) dv(3),
        of ?k spent_store, unfolded per_chat_values, OF lt1]
    by simp
  have tok: "tokens_of ?r1 ?k = Some 0" and last: "lastRefill_of ?r1 ?k = Some 100"
    by (rule stored_after_write_double [OF dv(11) p20])+
  have t2: "refill_double ?k 20 ?R 101 ?r1 = ?R"
    using refill_double_stored [OF tok last, of 20 ?R 101] by (simp only: per_chat_values)
  have c2: "fst (TOKEN_BUCKET_SCRIPT_double ?k 20 1 ?R 101 ?r1) = Inr (Reply 0 0 (Some 3))"
    using script_double_denied [OF dv(11) p20 dv(1) dv(2) dv(10) dv(4),
        of ?k ?r1, unfolded t2 per_chat_values, OF dv(12)]
    by simp
  let ?b = "''rate:broadcast:default''"
  let ?s1 = "EXPIRE (HMSET empty_store ?b 15 0) ?b \<lceil>double (15 / (1 / 4))\<rceil>"
  have d1: "TOKEN_BUCKET_SCRIPT_double ?b 15 20 (1 / 4) 0 empty_store =
              (Inr (Reply 0 0 (Some 20)), ?s1)"
    using script_double_denied [OF p14 p15 dv(6) dv(1) dv(9) dv(7),
        of ?b empty_store, unfolded broadcast_values, OF lt20]
    by simp
  have btok: "tokens_of ?s1 ?b = Some 15" and blast: "lastRefill_of ?s1 ?b = Some 0"
    by (rule stored_after_write_double [OF p14 p15])+
  have u2: "refill_double ?b 15 (1 / 4) 5 ?s1 = 15"
    using refill_double_stored [OF btok blast, of 15 "1 / 4" 5] by (simp only: broadcast_values)
  have d2: "fst (TOKEN_BUCKET_SCRIPT_double ?b 15 20 (1 / 4) 5 ?s1) = Inr (Reply 0 0 (Some 20))"
    using script_double_denied [OF p14 p15 dv(6) dv(1) dv(9) dv(8),
        of ?b ?s1, unfolded u2 broadcast_values, OF lt20]
    by simp
  show ?thesis
    by (simp only: c1 c2 d1 d2 fst_conv snd_conv simp_thms)
qed

text \<open>
  Claim C3, amended. For capacity and refill rate above zero (the four arguments being
  doubles, as the client passes them), a denied consume (refilled tokens below the
  request) writes the refilled count and the timestamp to the store and returns
  \<open>allowed = 0\<close>, \<open>remaining = 0\<close> and
  \<open>retryAfter = \<lceil>(tokens - refilled) / refillRate\<rceil>\<close>, the difference and the quotient
  rounded to doubles; a denial of the same request that follows it at a timestamp which
  is not earlier never reports a larger \<open>retryAfter\<close> (it can report the same one).
\<close>

theorem denial_persists_refill:
  assumes "0 < R" and "0 < cap"
    and "double cap = cap" and "double q = q" and "double R = R" and "double now = now"
    and "refill_double key cap R now r < q"
  shows "fst (TOKEN_BUCKET_SCRIPT_double key cap q R now r) =
           Inr (Reply 0 0 (Some (of_int
             \<lceil>double (double (q - refill_double key cap R now r) / R)\<rceil>)))
       \<and> tokens_of (snd (TOKEN_BUCKET_SCRIPT_double key cap q R now r)) key =
           Some (refill_double key cap R now r)
       \<and> lastRefill_of (snd (TOKEN_BUCKET_SCRIPT_double key cap q R now r)) key = Some now
       \<and> (double now' = now' \<and> now \<le> now'
            \<and> refill_double key cap R now'
                 (snd (TOKEN_BUCKET_SCRIPT_double key cap q R now r)) < q
          \<longrightarrow> fst (TOKEN_BUCKET_SCRIPT_double key cap q R now'
                      (snd (TOKEN_BUCKET_SCRIPT_double key cap q R now r))) =
                Inr (Reply 0 0 (Some (of_int
                  \<lceil>double (double (q - refill_double key cap R now'
                       (snd (TOKEN_BUCKET_SCRIPT_double key cap q R now r))) / R)\<rceil>)))
              \<and> \<lceil>double (double (q - refill_double key cap R now'
                       (snd (TOKEN_BUCKET_SCRIPT_double key cap q R now r))) / R)\<rceil>
                \<le> \<lceil>double (double (q - refill_double key cap R now r) / R)\<rceil>)"
proof -
  let ?t = "refill_double key cap R now r"
  let ?r1 = "snd (TOKEN_BUCKET_SCRIPT_double key cap q R now r)"
  have first: "TOKEN_BUCKET_SCRIPT_double key cap q R now r =
           (Inr (Reply 0 0 (Some (of_int \<lceil>double (double (q - ?t) / R)\<rceil>))),
            EXPIRE (HMSET r key ?t now) key \<lceil>double (cap / R)\<rceil>)"
    by (rule script_double_denied [OF assms])
  have tok: "tokens_of ?r1 key = Some ?t" and last: "lastRefill_of ?r1 key = Some now"
    by (simp_all add: first stored_after_write_double [OF assms(1,2)])
  have later: "fst (TOKEN_BUCKET_SCRIPT_double key cap q R now' ?r1) =
                Inr (Reply 0 0 (Some (of_int
                  \<lceil>double (double (q - refill_double key cap R now' ?r1) / R)\<rceil>)))
              \<and> \<lceil>double (double (q - refill_double key cap R now' ?r1) / R)\<rceil>
                \<le> \<lceil>double (double (q - ?t) / R)\<rceil>"
    if h: "double now' = now' \<and> now \<le> now' \<and> refill_double key cap R now' ?r1 < q"
  proof
    let ?t2 = "refill_double key cap R now' ?r1"
    from h have n': "double now' = now'" and le: "now \<le> now'" and den: "?t2 < q"
      by simp_all
    show "fst (TOKEN_BUCKET_SCRIPT_double key cap q R now' ?r1) =
            Inr (Reply 0 0 (Some (of_int \<lceil>double (double (q - ?t2) / R)\<rceil>)))"
      by (simp only: script_double_denied [OF assms(1-5) n' den] fst_conv)
    have td: "double ?t = ?t"
      by (rule refill_double_is_double [OF assms(3)])
    have "double 0 \<le> double (now' - now)"
      using le by (intro double_mono) simp
    then have "0 \<le> double (now' - now) * R"
      using assms(1) by simp
    then have "double 0 \<le> double (double (now' - now) * R)"
      by (rule double_mono)
    then have "?t \<le> ?t + double (double (now' - now) * R)"
      by simp
    then have "double ?t \<le> double (?t + double (double (now' - now) * R))"
      by (rule double_mono)
    then have "?t \<le> min cap (double (?t + double (double (now' - now) * R)))"
      using refill_double_le [of key cap R now r] by (simp add: td)
    moreover have "?t2 = min cap (double (?t + double (double (now' - now) * R)))"
      using refill_double_stored [OF tok last, of cap R now'] by (simp add: td assms(6))
    ultimately have "q - ?t2 \<le> q - ?t"
      by simp
    then have "double (q - ?t2) \<le> double (q - ?t)"
      by (rule double_mono)
    then have "double (q - ?t2) / R \<le> double (q - ?t) / R"
      using assms(1) by (simp add: divide_right_mono)
    then have "double (double (q - ?t2) / R) \<le> double (double (q - ?t) / R)"
      by (rule double_mono)
    then show "\<lceil>double (double (q - ?t2) / R)\<rceil> \<le> \<lceil>double (double (q - ?t) / R)\<rceil>"
      by (rule ceiling_mono)
  qed
  show ?thesis
  proof (intro conjI impI)
    show "fst (TOKEN_BUCKET_SCRIPT_double key cap q R now r) =
            Inr (Reply 0 0 (Some (of_int \<lceil>double (double (q - ?t) / R)\<rceil>)))"
      by (simp only: first fst_conv)
    show "tokens_of ?r1 key = Some ?t"
      by (rule tok)
    show "lastRefill_of ?r1 key = Some now"
      by (rule last)
  next
    assume h: "double now' = now' \<and> now \<le> now' \<and> refill_double key cap R now' ?r1 < q"
    show "fst (TOKEN_BUCKET_SCRIPT_double key cap q R now' ?r1) =
                Inr (Reply 0 0 (Some (of_int
                  \<lceil>double (double (q - refill_double key cap R now' ?r1) / R)\<rceil>)))"
      using later [OF h] by (rule conjunct1)
    show "\<lceil>double (double (q - refill_double key cap R now' ?r1) / R)\<rceil>
                \<le> \<lceil>double (double (q - ?t) / R)\<rceil>"
      using later [OF h] by (rule conjunct2)
  qed
qed

theorem denial_persists_refill_witness:
  "0 < per_chat_rate \<and> (0::rat) < 20
   \<and> double 20 = 20 \<and> double 1 = 1 \<and> double per_chat_rate = per_chat_rate
   \<and> double 100 = 100
   \<and> refill_double ''rate:chat:7'' 20 per_chat_rate 100 spent_store < 1
   \<and> fst (TOKEN_BUCKET_SCRIPT_double ''rate:chat:7'' 20 1 per_chat_rate 100 spent_store)
       = Inr (Reply 0 0 (Some 3))
   \<and> tokens_of (snd (TOKEN_BUCKET_SCRIPT_double ''rate:chat:7'' 20 1 per_chat_rate 100
        spent_store)) ''rate:chat:7'' = Some 0
   \<and> lastRefill_of (snd (TOKEN_BUCKET_SCRIPT_double ''rate:chat:7'' 20 1 per_chat_rate 100
        spent_store)) ''rate:chat:7'' = Some 100
   \<and> double 102 = 102 \<and> (100::rat) \<le> 102
   \<and> refill_double ''rate:chat:7'' 20 per_chat_rate 102
        (snd (TOKEN_BUCKET_SCRIPT_double ''rate:chat:7'' 20 1 per_chat_rate 100 spent_store)) < 1
   \<and> fst (TOKEN_BUCKET_SCRIPT_double ''rate:chat:7'' 20 1 per_chat_rate 102
        (snd (TOKEN_BUCKET_SCRIPT_double ''rate:chat:7'' 20 1 per_chat_rate 100 spent_store)))
       = Inr (Reply 0 0 (Some 2))"
proof -
  let ?k = "''rate:chat:7''"
  let ?R = "per_chat_rate"
  let ?r1 = "snd (TOKEN_BUCKET_SCRIPT_double ?k 20 1 ?R 100 spent_store)"
  note dv = double_values
  have p20: "(0::rat) < 20" and lt1: "(0::rat) < 1" and le: "(100::rat) \<le> 102"
    by simp_all
  have den: "refill_double ?k 20 ?R 100 spent_store < 1"
    by (simp only: per_chat_values lt1)
  note T = denial_persists_refill [OF dv(11) p20 dv(1) dv(2) dv(10) dv(3) den, of 102]
  have first: "fst (TOKEN_BUCKET_SCRIPT_double ?k 20 1 ?R 100 spent_store)
                 = Inr (Reply 0 0 (Some 3))"
    using T [THEN conjunct1] by (simp only: per_chat_values of_int_numeral)
  have tok: "tokens_of ?r1 ?k = Some 0"
    using T [THEN conjunct2, THEN conjunct1] by (simp only: per_chat_values)
  have last: "lastRefill_of ?r1 ?k = Some 100"
    using T [THEN conjunct2, THEN conjunct2, THEN conjunct1] .
  have t2: "refill_double ?k 20 ?R 102 ?r1 =
              min 20 (double (double 0 + double (double (102 - double 100) * ?R)))"
    by (rule refill_double_stored [OF tok last])
  have den2: "refill_double ?k 20 ?R 102 ?r1 < 1"
    by (simp only: t2 per_chat_values_later)
  have "fst (TOKEN_BUCKET_SCRIPT_double ?k 20 1 ?R 102 ?r1) =
          Inr (Reply 0 0 (Some (of_int
            \<lceil>double (double (1 - refill_double ?k 20 ?R 102 ?r1) / ?R)\<rceil>)))"
    using T [THEN conjunct2, THEN conjunct2, THEN conjunct2] dv(5) le den2 by blast
  then have second: "fst (TOKEN_BUCKET_SCRIPT_double ?k 20 1 ?R 102 ?r1)
                       = Inr (Reply 0 0 (Some 2))"
    by (simp only: t2 per_chat_values_later of_int_numeral)
  show ?thesis
    using dv(11) p20 dv(1) dv(2) dv(10) dv(3) den first tok last dv(5) le den2 second
    by (intro conjI)
qed




section \<open>The bucket invariant\<close>








section \<open>The service and the middleware\<close>

lemma key7: "string_of_int 7 = ''7''"
  by (simp add: string_of_int_def string_of_nat.simps)

lemma lua_to_integer_of_int [simp]: "lua_to_integer (of_int n) = of_int n"
  by (simp add: lua_to_integer_def)

lemma lua_to_integer_0 [simp]: "lua_to_integer 0 = 0"
  using lua_to_integer_of_int [of 0] by simp

lemma lua_to_integer_1 [simp]: "lua_to_integer 1 = 1"
  using lua_to_integer_of_int [of 1] by simp

lemma lua_to_integer_numeral [simp]: "lua_to_integer (numeral k) = numeral k"
  using lua_to_integer_of_int [of "numeral k"] by simp



lemma check_result_shape:
  assumes "0 < capacity config" and "0 < refillRate config"
    and "checkTokenBucket svc key config tokens dateNow r = (res, r')"
  shows "(allowed res \<longrightarrow> retryAfter res = None)
       \<and> (\<not> allowed res \<longrightarrow> (\<exists>x. retryAfter res = Some x \<and> 1000 \<le> x))"
proof (cases "\<not> enabled svc \<or> \<not> redis svc \<or> \<not> up r")
  case True
  then have "res = fail_open config dateNow"
    using assms(3) by (auto simp add: checkTokenBucket_def redis_eval_def Let_def split: if_splits)
  then show ?thesis
    by (simp add: fail_open_def)
next
  case False
  let ?r = "r\<lparr>issued := issued r @ [EVAL key]\<rparr>"
  let ?now = "of_int (dateNow div 1000) :: rat"
  let ?t = "refill key (capacity config) (refillRate config) ?now ?r"
  show ?thesis
  proof (cases "tokens \<le> ?t")
    case True
    have "res = \<lparr>allowed = True, remaining = lua_to_integer (capacity config - (?t - tokens)),
                 reset = of_int dateNow + (capacity config / refillRate config) * 1000,
                 retryAfter = None\<rparr>"
      using assms(3) False
      by (simp add: checkTokenBucket_def redis_eval_def Let_def
          script_granted [OF assms(2,1) True])
    then show ?thesis by simp
  next
    case no: False
    then have lt: "?t < tokens" by simp
    obtain n where n: "n = \<lceil>(tokens - ?t) / refillRate config\<rceil>"
      by simp
    have "0 < (tokens - ?t) / refillRate config"
      using lt assms(2) by simp
    then have pos: "1 \<le> n"
      unfolding n by simp
    then have nz: "(of_int n :: rat) \<noteq> 0"
      by auto
    have "res = \<lparr>allowed = False, remaining = 0,
                 reset = of_int dateNow + (capacity config / refillRate config) * 1000,
                 retryAfter = Some (of_int n * 1000)\<rparr>"
      using assms(3) False nz
      by (simp add: checkTokenBucket_def redis_eval_def Let_def
          script_denied [OF assms(2,1) lt] n [symmetric])
    moreover have "(1000::rat) \<le> of_int n * 1000"
      using pos by simp
    ultimately show ?thesis by simp
  qed
qed

lemma init_active: "rateLimiter w = Some svc \<Longrightarrow> initializeRateLimiter w = w"
  by (simp add: initializeRateLimiter_def)

lemma per_chat_shape:
  "(allowed (fst (checkPerChatLimit svc chatId tokens t r)) \<longrightarrow>
      retryAfter (fst (checkPerChatLimit svc chatId tokens t r)) = None)
   \<and> (\<not> allowed (fst (checkPerChatLimit svc chatId tokens t r)) \<longrightarrow>
      (\<exists>x. retryAfter (fst (checkPerChatLimit svc chatId tokens t r)) = Some x \<and> 1000 \<le> x))"
  unfolding checkPerChatLimit_def
  by (rule check_result_shape [where r' = "snd (checkTokenBucket svc (''rate:chat:'' @ string_of_int chatId)
        \<lparr>capacity = 20, refillRate = 20 / 60\<rparr> tokens t r)"]) simp_all

lemma global_shape:
  "(allowed (fst (checkGlobalLimit svc botId tokens t r)) \<longrightarrow>
      retryAfter (fst (checkGlobalLimit svc botId tokens t r)) = None)
   \<and> (\<not> allowed (fst (checkGlobalLimit svc botId tokens t r)) \<longrightarrow>
      (\<exists>x. retryAfter (fst (checkGlobalLimit svc botId tokens t r)) = Some x \<and> 1000 \<le> x))"
  unfolding checkGlobalLimit_def
  by (rule check_result_shape [where r' = "snd (checkTokenBucket svc (''rate:global:'' @ botKey botId)
        \<lparr>capacity = 30, refillRate = 30\<rparr> tokens t r)"]) simp_all

lemma exceeded_cases:
  assumes "allowed p \<longrightarrow> retryAfter p = None"
    and "\<not> allowed p \<longrightarrow> (\<exists>x. retryAfter p = Some x \<and> 1000 \<le> x)"
    and "\<not> allowed g \<longrightarrow> (\<exists>x. retryAfter g = Some x \<and> 1000 \<le> x)"
  shows "(exceeded p g = None) = (allowed p \<and> allowed g)"
    and "\<not> allowed p \<longrightarrow> (\<exists>x. retryAfter p = Some x \<and> x \<noteq> 0 \<and> exceeded p g = Some (''chat'', Some x))"
    and "allowed p \<and> \<not> allowed g \<longrightarrow>
           (\<exists>y. retryAfter g = Some y \<and> y \<noteq> 0 \<and> exceeded p g = Some (''global'', Some y))"
  using assms by (auto simp add: exceeded_def js_or_def)

lemma rateLimit_active:
  assumes "rateLimit_enabled w" and "rateLimiter w = Some svc"
    and "chat_id ctx = Some chatId" and "chatId \<noteq> 0"
  shows "rateLimit ctx next_throws t1 t2 w =
     (let (perChatResult, r1) = checkPerChatLimit svc chatId 1 t1 (store w);
          (globalResult, r2) =
             checkGlobalLimit svc (map_option string_of_int (me_id ctx)) 1 t2 r1;
          w' = w\<lparr>store := r2\<rparr>;
          info = Some (perChatResult, globalResult)
      in case exceeded perChatResult globalResult of
           Some (whichLimit, hint) \<Rightarrow>
             (case onLimit w' of
                OnLimitReject \<Rightarrow>
                  (\<lparr>effects =
                      [Warn whichLimit,
                       if callbackQuery ctx then AnswerCallbackQuery PleaseWaitAlert
                       else ReplyWith
                         (case js_or hint None of
                            Some ms \<Rightarrow> RateLimitExceededSeconds \<lceil>ms / 1000\<rceil>
                          | None \<Rightarrow> RateLimitExceededMoment)],
                    ctx_rateLimit = info, thrown = False\<rparr>, w')
              | OnLimitDelay \<Rightarrow>
                  (let (es, th) =
                     call_next_guarded ctx next_throws w'
                       [Warn whichLimit,
                        SetTimeout (min (js_or_default hint 1000) (queueTimeout w'))]
                   in (\<lparr>effects = es, ctx_rateLimit = info, thrown = th\<rparr>, w'))
              | OnLimitQueue \<Rightarrow>
                  (let (es, th) =
                     call_next_guarded ctx next_throws w' [Warn whichLimit]
                   in (\<lparr>effects = es, ctx_rateLimit = info, thrown = th\<rparr>, w')))
         | None \<Rightarrow>
             (let (es, th) = call_next_guarded ctx next_throws w' []
              in (\<lparr>effects = es, ctx_rateLimit = info, thrown = th\<rparr>, w')))"
  using assms by (simp add: rateLimit_def init_active)



lemma init_store:
  "hashes (store (initializeRateLimiter w)) = hashes (store w)"
  "ttl (store (initializeRateLimiter w)) = ttl (store w)"
  "up (store (initializeRateLimiter w)) = up (store w)"
  "issued (store (initializeRateLimiter w)) =
     issued (store w) @
       (if rateLimit_enabled w \<and> rateLimiter w = None \<and> (instance w \<or> client_ok w)
        then [PING] else [])"
  by (auto simp add: initializeRateLimiter_def healthCheck_def new_RateLimitService_def
      getInstance_def Let_def split_def)

text \<open>
  Claim C6, as stated, fails: the gate takes the per-chat hint whenever there is one, not
  the larger of the two. With three quarters of a token in the per-chat bucket and a
  global bucket holding one token whose \<^verbatim>\<open>lastRefill\<close> lies two seconds ahead, both
  scopes deny, the per-chat hint is 1000 ms and the global hint 2000 ms, and the request
  is told to wait one second.
\<close>

theorem aggregated_retry_counterexample:
  "retryAfter (fst (checkPerChatLimit active_service 7 1 100000 clash_store)) = Some 1000
   \<and> retryAfter (fst (checkGlobalLimit active_service None 1 100000
        (snd (checkPerChatLimit active_service 7 1 100000 clash_store)))) = Some 2000
   \<and> exceeded (fst (checkPerChatLimit active_service 7 1 100000 clash_store))
        (fst (checkGlobalLimit active_service None 1 100000
           (snd (checkPerChatLimit active_service 7 1 100000 clash_store))))
       = Some (''chat'', Some 1000)
   \<and> effects (fst (rateLimit chat7 False 100000 100000 (active_world clash_store)))
       = [Warn ''chat'', ReplyWith (RateLimitExceededSeconds 1)]"
  by (simp add: active_world_def fresh_world_def chat7_def active_service_def
      clash_store_def checkPerChatLimit_def checkGlobalLimit_def checkTokenBucket_def
      redis_eval_def botKey_def TOKEN_BUCKET_SCRIPT_def refill_def HMGET_def HMSET_def
      EXPIRE_def key7 exceeded_def js_or_def Let_def ceiling_eq_iff rateLimit_def
      initializeRateLimiter_def)

text \<open>
  Claim C6, amended. For every inbound request evaluated against per-chat and global,
  the gate finds no exceeded limit if and only if both scopes report allowed. When the
  per-chat scope denies, the limit named is \<open>chat\<close> and the retry hint is the per-chat
  hint; when per-chat allows and global denies, the limit named is \<open>global\<close> and the
  hint is the global one. Under the reject policy the request proceeds exactly when no
  limit is exceeded, and otherwise the reply names that hint in seconds; both results
  are kept in \<^verbatim>\<open>ctx.rateLimit\<close>.
\<close>

theorem aggregated_decision:
  fixes svc chatId botId t1 t2 r
  defines "p \<equiv> fst (checkPerChatLimit svc chatId 1 t1 r)"
    and "g \<equiv> fst (checkGlobalLimit svc botId 1 t2 (snd (checkPerChatLimit svc chatId 1 t1 r)))"
  shows "(exceeded p g = None) = (allowed p \<and> allowed g)
       \<and> (\<not> allowed p \<longrightarrow> (\<exists>x. retryAfter p = Some x \<and> exceeded p g = Some (''chat'', Some x)))
       \<and> (allowed p \<and> \<not> allowed g \<longrightarrow>
            (\<exists>y. retryAfter g = Some y \<and> exceeded p g = Some (''global'', Some y)))
       \<and> (rateLimit_enabled w \<and> rateLimiter w = Some svc \<and> store w = r
            \<and> chat_id ctx = Some chatId \<and> chatId \<noteq> 0
            \<and> map_option string_of_int (me_id ctx) = botId
            \<and> onLimit w = OnLimitReject \<and> \<not> callbackQuery ctx \<longrightarrow>
          fst (rateLimit ctx False t1 t2 w) =
            \<lparr>effects =
               (case exceeded p g of
                  None \<Rightarrow> [Next]
                | Some (whichLimit, hint) \<Rightarrow>
                    [Warn whichLimit,
                     ReplyWith (case hint of
                                  Some ms \<Rightarrow> RateLimitExceededSeconds \<lceil>ms / 1000\<rceil>
                                | None \<Rightarrow> RateLimitExceededMoment)]),
             ctx_rateLimit = Some (p, g), thrown = False\<rparr>)"
proof -
  have sp: "allowed p \<longrightarrow> retryAfter p = None"
    and dp: "\<not> allowed p \<longrightarrow> (\<exists>x. retryAfter p = Some x \<and> 1000 \<le> x)"
    using per_chat_shape [of svc chatId 1 t1 r] by (simp_all add: p_def)
  have dg: "\<not> allowed g \<longrightarrow> (\<exists>x. retryAfter g = Some x \<and> 1000 \<le> x)"
    using global_shape [of svc botId 1 t2 "snd (checkPerChatLimit svc chatId 1 t1 r)"]
    by (simp add: g_def)
  note ex = exceeded_cases [OF sp dp dg]
  have gate: "fst (rateLimit ctx False t1 t2 w) =
            \<lparr>effects =
               (case exceeded p g of
                  None \<Rightarrow> [Next]
                | Some (whichLimit, hint) \<Rightarrow>
                    [Warn whichLimit,
                     ReplyWith (case hint of
                                  Some ms \<Rightarrow> RateLimitExceededSeconds \<lceil>ms / 1000\<rceil>
                                | None \<Rightarrow> RateLimitExceededMoment)]),
             ctx_rateLimit = Some (p, g), thrown = False\<rparr>"
    if h: "rateLimit_enabled w \<and> rateLimiter w = Some svc \<and> store w = r
            \<and> chat_id ctx = Some chatId \<and> chatId \<noteq> 0
            \<and> map_option string_of_int (me_id ctx) = botId
            \<and> onLimit w = OnLimitReject \<and> \<not> callbackQuery ctx"
  proof (cases "allowed p \<and> allowed g")
    case True
    then have "exceeded p g = None"
      using ex(1) by simp
    then show ?thesis
      using h
      by (simp add: rateLimit_active [of w svc ctx chatId] split_def Let_def
          call_next_guarded_def p_def g_def)
  next
    case False
    then obtain which x where e: "exceeded p g = Some (which, Some x)" and x: "x \<noteq> 0"
      using ex(2,3) by blast
    then show ?thesis
      using h
      by (simp add: rateLimit_active [of w svc ctx chatId] split_def Let_def js_or_def
          p_def g_def)
  qed
  show ?thesis
    using ex gate by blast
qed

theorem aggregated_decision_witness:
  "rateLimit_enabled (active_world global_spent_store)
   \<and> rateLimiter (active_world global_spent_store) = Some active_service
   \<and> store (active_world global_spent_store) = global_spent_store
   \<and> chat_id chat7 = Some 7 \<and> (7::int) \<noteq> 0
   \<and> map_option string_of_int (me_id chat7) = None
   \<and> onLimit (active_world global_spent_store) = OnLimitReject \<and> \<not> callbackQuery chat7
   \<and> fst (rateLimit chat7 False 100000 100000 (active_world global_spent_store)) =
       \<lparr>effects = [Warn ''global'', ReplyWith (RateLimitExceededSeconds 1)],
        ctx_rateLimit =
          Some (\<lparr>allowed = True, remaining = 1, reset = 160000, retryAfter = None\<rparr>,
                \<lparr>allowed = False, remaining = 0, reset = 101000, retryAfter = Some 1000\<rparr>),
        thrown = False\<rparr>"
  using aggregated_decision [of active_service 7 100000 global_spent_store None 100000
      "active_world global_spent_store" chat7]
  by (simp add: active_world_def fresh_world_def chat7_def active_service_def
      global_spent_store_def checkPerChatLimit_def checkGlobalLimit_def checkTokenBucket_def
      redis_eval_def botKey_def TOKEN_BUCKET_SCRIPT_def refill_def HMGET_def HMSET_def
      EXPIRE_def key7 exceeded_def js_or_def Let_def ceiling_eq_iff)




text \<open>
  Claim C8. When the feature flag is off the middleware calls the downstream handler
  and leaves the world, the store and its list of issued commands included, as it was;
  a service whose own flag is off answers allowed without a store call.
\<close>

theorem disabled_bypass:
  "(\<not> rateLimit_enabled w \<longrightarrow>
      rateLimit ctx next_throws t1 t2 w =
        (\<lparr>effects = [Next], ctx_rateLimit = None, thrown = next_throws\<rparr>, w))
   \<and> (\<not> enabled svc \<longrightarrow>
      checkTokenBucket svc key config tokens dateNow r =
        (\<lparr>allowed = True, remaining = capacity config, reset = of_int dateNow + 60000,
          retryAfter = None\<rparr>, r))"
  by (simp add: rateLimit_def checkTokenBucket_def fail_open_def)

theorem disabled_bypass_witness:
  "\<not> rateLimit_enabled (fresh_world\<lparr>rateLimit_enabled := False\<rparr>)
   \<and> rateLimit chat7 False 100000 100000 (fresh_world\<lparr>rateLimit_enabled := False\<rparr>) =
       (\<lparr>effects = [Next], ctx_rateLimit = None, thrown = False\<rparr>,
        fresh_world\<lparr>rateLimit_enabled := False\<rparr>)
   \<and> \<not> enabled \<lparr>redis = False, enabled = False\<rparr>
   \<and> checkTokenBucket \<lparr>redis = False, enabled = False\<rparr> ''rate:chat:7''
        \<lparr>capacity = 20, refillRate = 20 / 60\<rparr> 1 100000 empty_store =
       (\<lparr>allowed = True, remaining = 20, reset = 160000, retryAfter = None\<rparr>, empty_store)"
  using disabled_bypass [of "fresh_world\<lparr>rateLimit_enabled := False\<rparr>" chat7 False 100000 100000
      "\<lparr>redis = False, enabled = False\<rparr>" "''rate:chat:7''"
      "\<lparr>capacity = 20, refillRate = 20 / 60\<rparr>" 1 100000 empty_store]
  by (simp add: fresh_world_def)

text \<open>
  Claim C9, as stated, fails: on the first request after start the lazy initialisation
  runs before the chat identifier is looked at, and it sends \<^verbatim>\<open>PING\<close> to the store.
\<close>

theorem no_chat_probe_counterexample:
  "chat_id (chat7\<lparr>chat_id := None\<rparr>) = None
   \<and> issued (store fresh_world) = []
   \<and> issued (store (snd (rateLimit (chat7\<lparr>chat_id := None\<rparr>) False 100000 100000 fresh_world)))
       = [PING]"
  by (simp add: chat7_def rateLimit_def fresh_world_def empty_store_def initializeRateLimiter_def
      healthCheck_def new_RateLimitService_def getInstance_def Let_def)

text \<open>
  Claim C9, amended. A request without a chat identifier is passed to the downstream
  handler with nothing put into \<^verbatim>\<open>ctx.rateLimit\<close>; no bucket and no time to live
  changes and no script is run. The only command the store can receive is the
  \<^verbatim>\<open>PING\<close> of the lazy initialisation, sent when the feature is on and the limiter has
  not been set up yet.
\<close>

theorem no_chat_skips:
  assumes "chat_id ctx = None"
  shows "fst (rateLimit ctx next_throws t1 t2 w) =
           \<lparr>effects = [Next], ctx_rateLimit = None, thrown = next_throws\<rparr>
       \<and> hashes (store (snd (rateLimit ctx next_throws t1 t2 w))) = hashes (store w)
       \<and> ttl (store (snd (rateLimit ctx next_throws t1 t2 w))) = ttl (store w)
       \<and> issued (store (snd (rateLimit ctx next_throws t1 t2 w))) =
           issued (store w) @
             (if rateLimit_enabled w \<and> rateLimiter w = None \<and> (instance w \<or> client_ok w)
              then [PING] else [])"
proof (cases "rateLimit_enabled w")
  case False
  then show ?thesis
    by (simp add: rateLimit_def)
next
  case True
  have "rateLimit ctx next_throws t1 t2 w =
          (\<lparr>effects = [Next], ctx_rateLimit = None, thrown = next_throws\<rparr>,
           initializeRateLimiter w)"
    using True assms by (simp add: rateLimit_def Let_def split: option.splits)
  then show ?thesis
    by (simp add: init_store)
qed

theorem no_chat_skips_witness:
  "chat_id (chat7\<lparr>chat_id := None\<rparr>) = None
   \<and> fst (rateLimit (chat7\<lparr>chat_id := None\<rparr>) False 100000 100000 (active_world steady_store)) =
       \<lparr>effects = [Next], ctx_rateLimit = None, thrown = False\<rparr>
   \<and> hashes (store (snd (rateLimit (chat7\<lparr>chat_id := None\<rparr>) False 100000 100000
        (active_world steady_store)))) = hashes steady_store
   \<and> issued (store (snd (rateLimit (chat7\<lparr>chat_id := None\<rparr>) False 100000 100000
        (active_world steady_store)))) = []"
  using no_chat_skips [of "chat7\<lparr>chat_id := None\<rparr>" False 100000 100000 "active_world steady_store"]
  by (simp add: chat7_def active_world_def fresh_world_def steady_store_def)

text \<open>
  Claim C10. Telegram user identifiers are positive, so \<^verbatim>\<open>ctx.from.id\<close> is never
  \<open>0\<close>. For every such context whose sender id is in \<^verbatim>\<open>adminIds\<close>, the middleware made
  by \<^verbatim>\<open>createAdminRateLimit\<close> calls the downstream handler directly and leaves the
  world, the store and its list of issued commands included, untouched; for every other
  context it is \<^verbatim>\<open>rateLimit\<close>.
\<close>

theorem admin_bypass:
  assumes "from_id ctx \<noteq> Some 0"
  shows "(from_id ctx = Some u \<and> u \<in> set adminIds \<longrightarrow>
            createAdminRateLimit adminIds ctx next_throws t1 t2 w =
              (\<lparr>effects = [Next], ctx_rateLimit = None, thrown = next_throws\<rparr>, w))
       \<and> (\<not> (\<exists>v. from_id ctx = Some v \<and> v \<in> set adminIds) \<longrightarrow>
            createAdminRateLimit adminIds ctx next_throws t1 t2 w =
              rateLimit ctx next_throws t1 t2 w)"
  using assms by (auto simp add: createAdminRateLimit_def split: option.splits)

theorem admin_bypass_witness:
  "from_id chat7 \<noteq> Some 0
   \<and> from_id chat7 = Some 42 \<and> 42 \<in> set [12345, 42 :: int]
   \<and> createAdminRateLimit [12345, 42] chat7 False 100000 100000 fresh_world =
       (\<lparr>effects = [Next], ctx_rateLimit = None, thrown = False\<rparr>, fresh_world)
   \<and> \<not> (\<exists>v. from_id chat7 = Some v \<and> v \<in> set [12345 :: int])
   \<and> createAdminRateLimit [12345] chat7 False 100000 100000 fresh_world =
       rateLimit chat7 False 100000 100000 fresh_world"
proof -
  have h: "from_id chat7 \<noteq> Some 0"
    by (simp add: chat7_def)
  show ?thesis
    using admin_bypass [OF h, of 42 "[12345, 42]" False 100000 100000 fresh_world]
      admin_bypass [OF h, of 42 "[12345]" False 100000 100000 fresh_world] h
    by (simp add: chat7_def)
qed

end
